theory Spec2Isabelle
  imports Complex_Main "HOL-Library.AList" "HOL-Library.Sublist"
begin

section \<open>Exceptions and the object store\<close>

text \<open>
  The module \<^verbatim>\<open>mlagents/trainers/trainer_metrics.py\<close> holds a flat recorder
  (\<^verbatim>\<open>TrainerMetrics\<close>) and a hierarchical timer (\<^verbatim>\<open>TimerNode\<close>,
  \<^verbatim>\<open>TimerStack\<close>, \<^verbatim>\<open>hierarchical_timer\<close>).

  Python exceptions are values of \<open>error\<close>; a function that may raise returns a sum with
  the exception on the left. \<open>BodyError\<close> stands for any exception raised by user code
  running inside a timed region.

  Timestamps and durations are Python floats; they are modelled as reals, so rounding is
  not part of the model. The clocks (\<^verbatim>\<open>perf_counter()\<close>, \<^verbatim>\<open>time()\<close>) are a parameter
  \<open>clk\<close>: the \<open>n\<close>-th reading made so far returns \<open>clk n\<close>.
\<close>

datatype error = AssertionError | IndexError | TypeError | ValueError | BodyError string

type_synonym addr = nat

type_synonym clock = "nat \<Rightarrow> real"

section \<open>TimerNode\<close>

text \<open>
  \<^verbatim>\<open>__slots__ = ["children", "_start_time", "total", "count"]\<close>.
  \<open>children\<close> is a Python dict from region name to child node: an association list in
  insertion order, whose values are references (addresses in the store).
  The slot \<^verbatim>\<open>total\<close> is named \<open>total_time\<close> here (\<open>total\<close> is a constant of HOL).
\<close>

record TimerNode =
  children :: "(string \<times> addr) list"
  start_time :: real
  total_time :: real
  count :: int

text \<open>\<^verbatim>\<open>TimerNode.__init__\<close>\<close>

definition TimerNode_init :: TimerNode where
  "TimerNode_init = \<lparr>children = [], start_time = -1, total_time = 0, count = 0\<rparr>"

text \<open>\<^verbatim>\<open>_is_running\<close>: \<^verbatim>\<open>return self._start_time != -1.0\<close>\<close>

definition TimerNode_is_running :: "TimerNode \<Rightarrow> bool" where
  "TimerNode_is_running n = (start_time n \<noteq> -1)"

text \<open>
  The state: the store of all \<^verbatim>\<open>TimerNode\<close> objects (a reference is an index into
  \<open>nodes\<close>; a new object is appended), the two slots of the \<^verbatim>\<open>TimerStack\<close>
  (\<^verbatim>\<open>root\<close>, named \<open>root_node\<close> here, and \<^verbatim>\<open>stack\<close>), and the number of clock readings
  made so far.
\<close>

record timer_state =
  nodes :: "TimerNode list"
  root_node :: addr
  stack :: "addr list"
  ticks :: nat

definition perf_counter :: "clock \<Rightarrow> timer_state \<Rightarrow> real \<times> timer_state" where
  "perf_counter clk s = (clk (ticks s), s\<lparr>ticks := Suc (ticks s)\<rparr>)"

text \<open>
  \<^verbatim>\<open>_start\<close>: the assertion comes first, then the clock is read and stored.
  An \<^verbatim>\<open>assert\<close> that fails raises \<^verbatim>\<open>AssertionError\<close> (the interpreter is not run
  with \<^verbatim>\<open>-O\<close>).
\<close>

definition TimerNode_start :: "clock \<Rightarrow> addr \<Rightarrow> timer_state \<Rightarrow> error + timer_state" where
  "TimerNode_start clk a s =
     (if TimerNode_is_running (nodes s ! a) then Inl AssertionError
      else (case perf_counter clk s of (t, s1) \<Rightarrow>
              Inr (s1\<lparr>nodes := (nodes s1)[a := (nodes s1 ! a)\<lparr>start_time := t\<rparr>]\<rparr>)))"

text \<open>\<^verbatim>\<open>_end\<close>\<close>

definition TimerNode_end :: "clock \<Rightarrow> addr \<Rightarrow> timer_state \<Rightarrow> error + timer_state" where
  "TimerNode_end clk a s =
     (if \<not> TimerNode_is_running (nodes s ! a) then Inl AssertionError
      else (case perf_counter clk s of (t, s1) \<Rightarrow>
              (let n = nodes s1 ! a;
                   elapsed = t - start_time n;
                   n1 = n\<lparr>total_time := total_time n + elapsed\<rparr>;
                   n2 = n1\<lparr>count := count n1 + 1\<rparr>;
                   n3 = n2\<lparr>start_time := -1\<rparr>
               in Inr (s1\<lparr>nodes := (nodes s1)[a := n3]\<rparr>))))"

section \<open>TimerStack\<close>

text \<open>
  \<^verbatim>\<open>TimerStack.__init__\<close>: a new root node is allocated and started, and the stack
  holds the root only. The constructor runs on a store \<open>ns\<close> of already existing nodes,
  after \<open>t\<close> clock readings.
\<close>

definition TimerStack_init :: "clock \<Rightarrow> TimerNode list \<Rightarrow> nat \<Rightarrow> error + timer_state" where
  "TimerStack_init clk ns t =
     (let r = length ns;
          s0 = \<lparr>nodes = ns @ [TimerNode_init], root_node = r, stack = [], ticks = t\<rparr>
      in case TimerNode_start clk r s0 of
           Inl e \<Rightarrow> Inl e
         | Inr s1 \<Rightarrow> Inr (s1\<lparr>stack := [r]\<rparr>))"

text \<open>
  \<^verbatim>\<open>push\<close>: \<^verbatim>\<open>self.stack[-1]\<close> raises \<^verbatim>\<open>IndexError\<close> on an empty list;
  \<^verbatim>\<open>children.get(name)\<close> is \<open>map_of\<close>; \<^verbatim>\<open>current.children[name] = next_timer\<close> is
  \<open>AList.update\<close> (a new key goes to the end). The result is the reference returned
  and the new state.
\<close>

definition TimerStack_push :: "string \<Rightarrow> timer_state \<Rightarrow> error + (addr \<times> timer_state)" where
  "TimerStack_push name s =
     (if stack s = [] then Inl IndexError
      else
        (let current = last (stack s) in
         case map_of (children (nodes s ! current)) name of
           None \<Rightarrow>
             (let next_timer = length (nodes s);
                  ns1 = nodes s @ [TimerNode_init];
                  cur = ns1 ! current;
                  ns2 = ns1[current := cur\<lparr>children := AList.update name next_timer (children cur)\<rparr>]
              in Inr (next_timer, s\<lparr>nodes := ns2, stack := stack s @ [next_timer]\<rparr>))
         | Some next_timer \<Rightarrow>
             Inr (next_timer, s\<lparr>stack := stack s @ [next_timer]\<rparr>)))"

text \<open>\<^verbatim>\<open>pop\<close>: \<^verbatim>\<open>self.stack.pop()\<close>; \<^verbatim>\<open>list.pop\<close> raises \<^verbatim>\<open>IndexError\<close> on an empty list.\<close>

definition TimerStack_pop :: "timer_state \<Rightarrow> error + timer_state" where
  "TimerStack_pop s =
     (if stack s = [] then Inl IndexError else Inr (s\<lparr>stack := butlast (stack s)\<rparr>))"

subsection \<open>The timing tree\<close>

text \<open>
  The record \<^verbatim>\<open>res\<close> of \<^verbatim>\<open>get_timing_tree\<close>: the keys \<^verbatim>\<open>total\<close>, \<^verbatim>\<open>count\<close>,
  \<^verbatim>\<open>children\<close> (\<open>None\<close> when the key is absent) and \<^verbatim>\<open>self\<close>. A child record
  \<^verbatim>\<open>{"name": child_name, **rec}\<close> is the pair of the name and the record.
\<close>

datatype timing =
  Timing (t_total: real) (t_count: int) (t_children: "(string \<times> timing) list option") (t_self: real)

text \<open>
  The recursion of \<^verbatim>\<open>get_timing_tree(node)\<close> follows references through the store, so it
  takes fuel: \<open>None\<close> is "out of fuel". \<open>timing_children\<close> is the \<^verbatim>\<open>for\<close> loop over
  \<^verbatim>\<open>node.children.items()\<close>; its accumulator is \<^verbatim>\<open>(res["children"], child_total)\<close>.
\<close>

fun timing_node :: "nat \<Rightarrow> TimerNode list \<Rightarrow> addr \<Rightarrow> timing option"
  and timing_children :: "nat \<Rightarrow> TimerNode list \<Rightarrow> (string \<times> addr) list
        \<Rightarrow> (string \<times> timing) list \<times> real \<Rightarrow> ((string \<times> timing) list \<times> real) option" where
  "timing_node 0 ns a = None"
| "timing_node (Suc k) ns a =
     (let node = ns ! a in
      if children node \<noteq> [] then
        (case timing_children k ns (children node) ([], 0) of
           None \<Rightarrow> None
         | Some (res_children, child_total) \<Rightarrow>
             Some (Timing (total_time node) (count node) (Some res_children)
                     (max 0 (total_time node - child_total))))
      else Some (Timing (total_time node) (count node) None (max 0 (total_time node - 0))))"
| "timing_children k ns [] acc = Some acc"
| "timing_children k ns ((child_name, child_node) # rest) acc =
     (case timing_node k ns child_node of
        None \<Rightarrow> None
      | Some child_res \<Rightarrow>
          timing_children k ns rest
            (fst acc @ [(child_name, child_res)], snd acc + t_total child_res))"

text \<open>
  \<^verbatim>\<open>get_timing_tree(node=None)\<close>: with no node, the root is ended first (which raises when
  the root is not running) and the recursion starts at the root.
\<close>

definition get_timing_tree ::
    "clock \<Rightarrow> nat \<Rightarrow> addr option \<Rightarrow> timer_state \<Rightarrow> (error + (timing \<times> timer_state)) option" where
  "get_timing_tree clk fuel node s =
     (case node of
        None \<Rightarrow>
          (case TimerNode_end clk (root_node s) s of
             Inl e \<Rightarrow> Some (Inl e)
           | Inr s1 \<Rightarrow> map_option (\<lambda>r. Inr (r, s1)) (timing_node fuel (nodes s1) (root_node s1)))
      | Some a \<Rightarrow> map_option (\<lambda>r. Inr (r, s)) (timing_node fuel (nodes s) a))"

section \<open>The scoped region helper\<close>

text \<open>
  \<^verbatim>\<open>hierarchical_timer\<close> is a generator wrapped by \<^verbatim>\<open>@contextmanager\<close>. The body of the
  \<^verbatim>\<open>with\<close> block is \<open>body\<close>: it gets the yielded node and the state, and returns the
  state, or raises (with the state it left). An exception of the body is thrown into
  the generator at its \<^verbatim>\<open>yield\<close>; the generator has no \<^verbatim>\<open>try\<close> around the
  \<^verbatim>\<open>yield\<close>, so the exception leaves the generator there and the two statements after
  the \<^verbatim>\<open>yield\<close> do not run.
\<close>

definition hierarchical_timer ::
    "clock \<Rightarrow> string \<Rightarrow> (addr \<Rightarrow> timer_state \<Rightarrow> (error \<times> timer_state) + timer_state)
      \<Rightarrow> timer_state \<Rightarrow> (error \<times> timer_state) + timer_state" where
  "hierarchical_timer clk name body s =
     (case TimerStack_push name s of
        Inl e \<Rightarrow> Inl (e, s)
      | Inr (next_timer, s1) \<Rightarrow>
          (case TimerNode_start clk next_timer s1 of
             Inl e \<Rightarrow> Inl (e, s1)
           | Inr s2 \<Rightarrow>
               (case body next_timer s2 of
                  Inl (e, s3) \<Rightarrow> Inl (e, s3)
                | Inr s3 \<Rightarrow>
                    (case TimerNode_end clk next_timer s3 of
                       Inl e \<Rightarrow> Inl (e, s3)
                     | Inr s4 \<Rightarrow>
                         (case TimerStack_pop s4 of
                            Inl e \<Rightarrow> Inl (e, s4)
                          | Inr s5 \<Rightarrow> Inr s5)))))"

section \<open>TrainerMetrics\<close>

text \<open>
  The attributes of the flat recorder hold \<^verbatim>\<open>None\<close>, an int, a float or a string.
  \<open>pyval\<close> is such a value where the code tests its type; \<open>PFmt3 x\<close> is the string
  that \<^verbatim>\<open>format(x, ".3f")\<close> returns for the float \<open>x\<close> (the digits are not computed).
  \<^verbatim>\<open>time()\<close> returns a float, so an attribute that is \<^verbatim>\<open>None\<close> or a reading of the
  clock is a \<open>real option\<close>. The arguments \<^verbatim>\<open>number_experiences\<close>, \<^verbatim>\<open>mean_return\<close>
  and \<^verbatim>\<open>delta\<close> are numbers, an int or a float each (the annotations are not checked
  when the code runs): a \<open>pynum\<close>. An attribute that is \<^verbatim>\<open>None\<close> or such a number
  is a \<open>pynum option\<close>.
  \<open>time_reads\<close> counts the readings of \<^verbatim>\<open>time()\<close> made so far.
\<close>

datatype pyval = PNone | PInt int | PFloat real | PStr string | PFmt3 real

datatype pynum = NInt int | NFloat real

record TrainerMetrics =
  path :: string
  brain_name :: string
  rows :: "pyval list list"
  time_start_experience_collection :: "real option"
  time_training_start :: real
  last_buffer_length :: "pynum option"
  last_mean_return :: "pynum option"
  time_policy_update_start :: "real option"
  delta_last_experience_collection :: "pynum option"
  delta_policy_update :: pyval
  time_reads :: nat

definition py_time :: "clock \<Rightarrow> TrainerMetrics \<Rightarrow> real \<times> TrainerMetrics" where
  "py_time clk m = (clk (time_reads m), m\<lparr>time_reads := Suc (time_reads m)\<rparr>)"

text \<open>Truth value of an attribute that is \<^verbatim>\<open>None\<close> or a float: \<^verbatim>\<open>None\<close> and \<^verbatim>\<open>0.0\<close> are false.\<close>

fun py_truthy :: "real option \<Rightarrow> bool" where
  "py_truthy None = False"
| "py_truthy (Some x) = (x \<noteq> 0)"

text \<open>
  Truth value of an attribute that is \<^verbatim>\<open>None\<close> or a number: \<^verbatim>\<open>None\<close>, \<^verbatim>\<open>0\<close> and
  \<^verbatim>\<open>0.0\<close> are false.
\<close>

fun num_truthy :: "pynum option \<Rightarrow> bool" where
  "num_truthy None = False"
| "num_truthy (Some (NInt i)) = (i \<noteq> 0)"
| "num_truthy (Some (NFloat x)) = (x \<noteq> 0)"

text \<open>Python's \<^verbatim>\<open>+\<close> on numbers: two ints give an int, a float on either side a float.\<close>

fun num_add :: "pynum \<Rightarrow> pynum \<Rightarrow> pynum" where
  "num_add (NInt a) (NInt b) = NInt (a + b)"
| "num_add (NInt a) (NFloat y) = NFloat (of_int a + y)"
| "num_add (NFloat x) (NInt b) = NFloat (x + of_int b)"
| "num_add (NFloat x) (NFloat y) = NFloat (x + y)"

fun of_num :: "pynum option \<Rightarrow> pyval" where
  "of_num None = PNone"
| "of_num (Some (NInt i)) = PInt i"
| "of_num (Some (NFloat x)) = PFloat x"

text \<open>\<^verbatim>\<open>TrainerMetrics.__init__\<close>, run after \<open>t\<close> readings of the clock.\<close>

definition TrainerMetrics_init :: "clock \<Rightarrow> nat \<Rightarrow> string \<Rightarrow> string \<Rightarrow> TrainerMetrics" where
  "TrainerMetrics_init clk t p b =
     \<lparr>path = p, brain_name = b, rows = [],
      time_start_experience_collection = None,
      time_training_start = clk t,
      last_buffer_length = None,
      last_mean_return = None,
      time_policy_update_start = None,
      delta_last_experience_collection = None,
      delta_policy_update = PNone,
      time_reads = Suc t\<rparr>"

definition start_experience_collection_timer :: "clock \<Rightarrow> TrainerMetrics \<Rightarrow> TrainerMetrics" where
  "start_experience_collection_timer clk m =
     (if time_start_experience_collection m = None then
        (case py_time clk m of (t, m1) \<Rightarrow> m1\<lparr>time_start_experience_collection := Some t\<rparr>)
      else m)"

definition end_experience_collection_timer :: "clock \<Rightarrow> TrainerMetrics \<Rightarrow> TrainerMetrics" where
  "end_experience_collection_timer clk m =
     (let m2 =
        (if py_truthy (time_start_experience_collection m) then
           (case py_time clk m of (t, m1) \<Rightarrow>
              (let curr_delta = t - the (time_start_experience_collection m1) in
               case delta_last_experience_collection m1 of
                 None \<Rightarrow> m1\<lparr>delta_last_experience_collection := Some (NFloat curr_delta)\<rparr>
               | Some d \<Rightarrow>
                   m1\<lparr>delta_last_experience_collection := Some (num_add d (NFloat curr_delta))\<rparr>))
         else m)
      in m2\<lparr>time_start_experience_collection := None\<rparr>)"

definition add_delta_step :: "pynum \<Rightarrow> TrainerMetrics \<Rightarrow> TrainerMetrics" where
  "add_delta_step delta m =
     (if num_truthy (delta_last_experience_collection m) then
        m\<lparr>delta_last_experience_collection :=
            Some (num_add (the (delta_last_experience_collection m)) delta)\<rparr>
      else m\<lparr>delta_last_experience_collection := Some delta\<rparr>)"

definition start_policy_update_timer ::
    "clock \<Rightarrow> pynum \<Rightarrow> pynum \<Rightarrow> TrainerMetrics \<Rightarrow> TrainerMetrics" where
  "start_policy_update_timer clk number_experiences mean_return m =
     (let m1 = m\<lparr>last_buffer_length := Some number_experiences\<rparr>;
          m2 = m1\<lparr>last_mean_return := Some mean_return\<rparr>
      in case py_time clk m2 of (t, m3) \<Rightarrow> m3\<lparr>time_policy_update_start := Some t\<rparr>)"

text \<open>
  \<^verbatim>\<open>_add_row\<close>: a float cell becomes its three-decimal string, any other cell (an int,
  \<^verbatim>\<open>None\<close>) stays as it is.
\<close>

fun row_cell :: "pyval \<Rightarrow> pyval" where
  "row_cell (PFloat x) = PFmt3 x"
| "row_cell c = c"

definition add_row :: "real \<Rightarrow> TrainerMetrics \<Rightarrow> TrainerMetrics" where
  "add_row delta_train_start m =
     (let row = PStr (brain_name m) #
                map row_cell
                  [delta_policy_update m,
                   PFloat delta_train_start,
                   of_num (delta_last_experience_collection m),
                   of_num (last_buffer_length m),
                   of_num (last_mean_return m)];
          m1 = m\<lparr>delta_last_experience_collection := None\<rparr>
      in m1\<lparr>rows := rows m1 @ [row]\<rparr>)"

text \<open>
  The argument of \<^verbatim>\<open>LOGGER.debug\<close> is built by \<^verbatim>\<open>str.format\<close> before the call, whatever
  the log level. A replacement field \<^verbatim>\<open>{:0.3f}\<close> accepts an int or a float; on
  \<^verbatim>\<open>None\<close> it raises \<^verbatim>\<open>TypeError\<close>, on a string \<^verbatim>\<open>ValueError\<close>. A field \<^verbatim>\<open>{}\<close>
  accepts every value. \<open>format_fields\<close> goes through the fields from left to right; the
  flag says whether the field has the format \<^verbatim>\<open>0.3f\<close>. The text of the message is not
  modelled.
\<close>

fun format_3f :: "pyval \<Rightarrow> error option" where
  "format_3f PNone = Some TypeError"
| "format_3f (PInt i) = None"
| "format_3f (PFloat x) = None"
| "format_3f (PStr x) = Some ValueError"
| "format_3f (PFmt3 x) = Some ValueError"

fun format_fields :: "(bool \<times> pyval) list \<Rightarrow> error option" where
  "format_fields [] = None"
| "format_fields ((f, v) # rest) =
     (case (if f then format_3f v else None) of
        Some e \<Rightarrow> Some e
      | None \<Rightarrow> format_fields rest)"

definition debug_message :: "real \<Rightarrow> TrainerMetrics \<Rightarrow> error option" where
  "debug_message delta_train_start m =
     format_fields
       [(False, PStr (brain_name m)),
        (True, delta_policy_update m),
        (True, PFloat delta_train_start),
        (True, of_num (delta_last_experience_collection m)),
        (False, of_num (last_buffer_length m)),
        (True, of_num (last_mean_return m))]"

text \<open>
  \<^verbatim>\<open>end_policy_update\<close>. When the message cannot be formatted the exception leaves the
  method with the attributes as they are then: \<^verbatim>\<open>_add_row\<close> has not run.
\<close>

definition end_policy_update ::
    "clock \<Rightarrow> TrainerMetrics \<Rightarrow> (error \<times> TrainerMetrics) + TrainerMetrics" where
  "end_policy_update clk m =
     (let m2 =
        (if py_truthy (time_policy_update_start m) then
           (case py_time clk m of (t, m1) \<Rightarrow>
              m1\<lparr>delta_policy_update := PFloat (t - the (time_policy_update_start m1))\<rparr>)
         else m\<lparr>delta_policy_update := PInt 0\<rparr>)
      in case py_time clk m2 of (t2, m3) \<Rightarrow>
           (let delta_train_start = t2 - time_training_start m3 in
            case debug_message delta_train_start m3 of
              Some e \<Rightarrow> Inl (e, m3)
            | None \<Rightarrow> Inr (add_row delta_train_start m3)))"

text \<open>
  Python's \<^verbatim>\<open>str.replace(old, new)\<close>: every occurrence of \<open>old\<close>, found from left to
  right without overlap, is replaced. With an empty \<open>old\<close>, \<open>new\<close> is put before every
  character and at the end.
\<close>

function str_replace :: "string \<Rightarrow> string \<Rightarrow> string \<Rightarrow> string" where
  "str_replace old new s =
     (if old = [] then new @ concat (map (\<lambda>c. c # new) s)
      else if s = [] then []
      else if take (length old) s = old then new @ str_replace old new (drop (length old) s)
      else hd s # str_replace old new (tl s))"
  by pat_completeness auto
termination
  by (relation "measure (\<lambda>(old, new, s). length s)") auto

declare str_replace.simps [simp del]

text \<open>
  \<^verbatim>\<open>write_training_metrics\<close> writes the rows to \<^verbatim>\<open>self.path\<close> and the timer tree to
  \<^verbatim>\<open>json_path\<close>; of the method only the path of the second file is modelled.
\<close>

definition json_path :: "TrainerMetrics \<Rightarrow> string" where
  "json_path m = str_replace ''csv'' ''hierarchy.json'' (path m)"

section \<open>Example states\<close>

text \<open>
  A stack with the root (started at 2) and one child region \<open>step\<close> that is open:
  it ran three times before, for 4 seconds in all, and was started again at 7.
\<close>

definition demo_stack :: timer_state where
  "demo_stack =
     \<lparr>nodes = [\<lparr>children = [(''step'', 1)], start_time = 2, total_time = 0, count = 0\<rparr>,
               \<lparr>children = [], start_time = 7, total_time = 4, count = 3\<rparr>],
      root_node = 0, stack = [0, 1], ticks = 9\<rparr>"

text \<open>A clock that shows the number of the reading: 0, 1, 2, ...\<close>

definition tick_clock :: clock where
  "tick_clock n = real n"


section \<open>Well-formed stores and timing records\<close>

text \<open>
  \<^verbatim>\<open>push\<close> is the only code that adds a child, and the child it adds is a new object:
  in the store every child is allocated after its parent, so a child's reference is larger
  than its parent's and below the size of the store. \<open>store_ok\<close> says so for every node.
\<close>

definition store_ok :: "TimerNode list \<Rightarrow> bool" where
  "store_ok ns =
     list_all (\<lambda>a. list_all (\<lambda>c. a < c \<and> c < length ns) (map snd (children (ns ! a))))
       [0..<length ns]"



section \<open>Sequences of calls on the recorder\<close>

text \<open>
  The public methods of \<^verbatim>\<open>TrainerMetrics\<close> as calls. \<open>after_call\<close> is the recorder after
  one call, whether the call returned or raised (a caller that catches the exception
  goes on with the recorder as the call left it); \<open>after_calls\<close> runs a list of calls.
\<close>

datatype tm_call =
    StartExperienceCollection
  | EndExperienceCollection
  | AddDeltaStep pynum
  | StartPolicyUpdate pynum pynum
  | EndPolicyUpdate

fun is_start_policy_update :: "tm_call \<Rightarrow> bool" where
  "is_start_policy_update (StartPolicyUpdate n r) = True"
| "is_start_policy_update c = False"

definition after_end_policy_update :: "clock \<Rightarrow> TrainerMetrics \<Rightarrow> TrainerMetrics" where
  "after_end_policy_update clk m =
     (case end_policy_update clk m of Inl (e, m1) \<Rightarrow> m1 | Inr m1 \<Rightarrow> m1)"

fun after_call :: "clock \<Rightarrow> tm_call \<Rightarrow> TrainerMetrics \<Rightarrow> TrainerMetrics" where
  "after_call clk StartExperienceCollection m = start_experience_collection_timer clk m"
| "after_call clk EndExperienceCollection m = end_experience_collection_timer clk m"
| "after_call clk (AddDeltaStep d) m = add_delta_step d m"
| "after_call clk (StartPolicyUpdate n r) m = start_policy_update_timer clk n r m"
| "after_call clk EndPolicyUpdate m = after_end_policy_update clk m"

fun after_calls :: "clock \<Rightarrow> tm_call list \<Rightarrow> TrainerMetrics \<Rightarrow> TrainerMetrics" where
  "after_calls clk [] m = m"
| "after_calls clk (c # cs) m = after_calls clk cs (after_call clk c m)"

text \<open>
  A start time of the policy update is \<^verbatim>\<open>None\<close> or a reading of the clock.
\<close>

definition start_is_reading :: "clock \<Rightarrow> TrainerMetrics \<Rightarrow> bool" where
  "start_is_reading clk m =
     (time_policy_update_start m = None \<or> (\<exists>i. time_policy_update_start m = Some (clk i)))"


text \<open>A clock for \<^verbatim>\<open>time()\<close> whose readings are 1, 2, 3, ...: none is 0.\<close>

definition epoch_clock :: clock where
  "epoch_clock n = real n + 1"

section \<open>Sequences of operations on the stack\<close>

text \<open>
  The four operations a caller runs around a timed region. \<open>Start\<close> and \<open>End\<close> are
  \<^verbatim>\<open>_start\<close> and \<^verbatim>\<open>_end\<close> on the node on top of the stack: after \<open>Push\<close> that is the
  node \<^verbatim>\<open>push\<close> returned, and before \<open>Pop\<close> it is the node about to be popped.
  A list of operations stops at the first exception.
\<close>

datatype timer_op = Push string | Start | End | Pop

fun exec_op :: "clock \<Rightarrow> timer_op \<Rightarrow> timer_state \<Rightarrow> error + timer_state" where
  "exec_op clk (Push name) s =
     (case TimerStack_push name s of Inl e \<Rightarrow> Inl e | Inr (c, s1) \<Rightarrow> Inr s1)"
| "exec_op clk Start s =
     (if stack s = [] then Inl IndexError else TimerNode_start clk (last (stack s)) s)"
| "exec_op clk End s =
     (if stack s = [] then Inl IndexError else TimerNode_end clk (last (stack s)) s)"
| "exec_op clk Pop s = TimerStack_pop s"

fun exec_ops :: "clock \<Rightarrow> timer_op list \<Rightarrow> timer_state \<Rightarrow> error + timer_state" where
  "exec_ops clk [] s = Inr s"
| "exec_ops clk (x # xs) s =
     (case exec_op clk x s of Inl e \<Rightarrow> Inl e | Inr s1 \<Rightarrow> exec_ops clk xs s1)"

text \<open>
  Properly nested sequences: a region is a name and the regions entered inside it;
  its operations are push, start, the operations of the inner regions, end, pop.
  \<open>nested_ops\<close> is a sequence of regions one after the other.
\<close>

datatype region = Region string "region list"

fun region_ops :: "region \<Rightarrow> timer_op list"
  and nested_ops :: "region list \<Rightarrow> timer_op list" where
  "region_ops (Region name body) = [Push name, Start] @ nested_ops body @ [End, Pop]"
| "nested_ops [] = []"
| "nested_ops (r # rs) = region_ops r @ nested_ops rs"

text \<open>
  The invariant of a stack between regions: the stack starts with the root; its
  references are nodes of the store, in increasing order; the store is well formed;
  and a node is running exactly when it is on the stack.
\<close>

definition stack_inv :: "timer_state \<Rightarrow> bool" where
  "stack_inv s =
     (stack s \<noteq> [] \<and> hd (stack s) = root_node s \<and>
      sorted_wrt (<) (stack s) \<and>
      list_all (\<lambda>a. a < length (nodes s)) (stack s) \<and>
      store_ok (nodes s) \<and>
      list_all (\<lambda>a. TimerNode_is_running (nodes s ! a) = (a \<in> set (stack s)))
        [0..<length (nodes s)])"

text \<open>
  The state right after \<^verbatim>\<open>TimerStack()\<close> in a new process, with the clock \<open>tick_clock\<close>.
\<close>

definition fresh_stack :: timer_state where
  "fresh_stack =
     \<lparr>nodes = [\<lparr>children = [], start_time = 0, total_time = 0, count = 0\<rparr>],
      root_node = 0, stack = [0], ticks = 1\<rparr>"

section \<open>TimerNode: start and end\<close>

text \<open>
  Claim C4. For a node \<open>a\<close> of the store that is running, \<^verbatim>\<open>_end\<close> returns normally; it
  adds the elapsed time (the clock reading minus \<open>start_time\<close>) to \<open>total_time\<close>,
  adds 1 to \<open>count\<close> and sets \<open>start_time\<close> to the not-running value -1. The children of
  the node, every other node, the root and the stack are unchanged.
\<close>

theorem TimerNode_end_running:
  assumes "a < length (nodes s)" and "TimerNode_is_running (nodes s ! a)"
  shows "\<exists>s'. TimerNode_end clk a s = Inr s' \<and>
           total_time (nodes s' ! a)
             = total_time (nodes s ! a) + (clk (ticks s) - start_time (nodes s ! a)) \<and>
           count (nodes s' ! a) = count (nodes s ! a) + 1 \<and>
           start_time (nodes s' ! a) = -1 \<and>
           \<not> TimerNode_is_running (nodes s' ! a) \<and>
           children (nodes s' ! a) = children (nodes s ! a) \<and>
           nodes s' = (nodes s)[a := nodes s' ! a] \<and>
           root_node s' = root_node s \<and> stack s' = stack s"
  using assms
  by (simp add: TimerNode_end_def perf_counter_def TimerNode_is_running_def Let_def)

theorem TimerNode_end_running_witness:
  "\<exists>s'. TimerNode_end tick_clock 1 demo_stack = Inr s' \<and>
        total_time (nodes s' ! 1) = 6 \<and> count (nodes s' ! 1) = 4 \<and>
        start_time (nodes s' ! 1) = -1 \<and> children (nodes s' ! 1) = []"
  using TimerNode_end_running [of 1 demo_stack tick_clock]
  by (auto simp: demo_stack_def TimerNode_is_running_def tick_clock_def)

text \<open>
  Claim C5. \<^verbatim>\<open>_start\<close> raises \<^verbatim>\<open>AssertionError\<close> exactly when the node is running, and
  returns normally exactly when it is not; \<^verbatim>\<open>_end\<close> raises \<^verbatim>\<open>AssertionError\<close> exactly
  when the node is not running, and returns normally exactly when it is. The callers do
  not catch the exception: \<^verbatim>\<open>hierarchical_timer\<close> raises it when the node it pushed
  is already running, and \<^verbatim>\<open>get_timing_tree()\<close> raises it when the root is not running.
\<close>

theorem TimerNode_precondition_violations:
  "(TimerNode_start clk a s = Inl AssertionError) = TimerNode_is_running (nodes s ! a) \<and>
   (\<exists>s'. TimerNode_start clk a s = Inr s') = (\<not> TimerNode_is_running (nodes s ! a)) \<and>
   (TimerNode_end clk a s = Inl AssertionError) = (\<not> TimerNode_is_running (nodes s ! a)) \<and>
   (\<exists>s'. TimerNode_end clk a s = Inr s') = TimerNode_is_running (nodes s ! a) \<and>
   (TimerStack_push name u = Inr (c, u1) \<and> TimerNode_is_running (nodes u1 ! c)
      \<longrightarrow> hierarchical_timer clk name body u = Inl (AssertionError, u1)) \<and>
   (\<not> TimerNode_is_running (nodes v ! root_node v)
      \<longrightarrow> get_timing_tree clk fuel None v = Some (Inl AssertionError))"
  by (simp add: TimerNode_start_def TimerNode_end_def perf_counter_def Let_def
      hierarchical_timer_def get_timing_tree_def)

theorem TimerNode_precondition_violations_witness:
  "TimerNode_start tick_clock 1 demo_stack = Inl AssertionError \<and>
   TimerNode_end tick_clock 1 (demo_stack\<lparr>nodes := [TimerNode_init, TimerNode_init]\<rparr>)
     = Inl AssertionError \<and>
   TimerStack_push ''step'' (demo_stack\<lparr>stack := [0]\<rparr>) = Inr (1, demo_stack) \<and>
   hierarchical_timer tick_clock ''step'' (\<lambda>node s. Inr s) (demo_stack\<lparr>stack := [0]\<rparr>)
     = Inl (AssertionError, demo_stack) \<and>
   get_timing_tree tick_clock 5 None (demo_stack\<lparr>nodes := [TimerNode_init]\<rparr>)
     = Some (Inl AssertionError)"
  using TimerNode_precondition_violations
          [of tick_clock 1 demo_stack "''step''" "demo_stack\<lparr>stack := [0]\<rparr>" 1 demo_stack
              "\<lambda>node s. Inr s" "demo_stack\<lparr>nodes := [TimerNode_init]\<rparr>" 5]
        TimerNode_precondition_violations
          [of tick_clock 1 "demo_stack\<lparr>nodes := [TimerNode_init, TimerNode_init]\<rparr>"]
  by (simp add: demo_stack_def TimerNode_is_running_def TimerNode_init_def TimerStack_push_def)

section \<open>TimerStack: pop\<close>

text \<open>
  Claim C10. \<^verbatim>\<open>pop\<close> has no guard. On every stack that is not empty it returns
  normally and removes the last element of the stack, whatever is left, and changes
  nothing else; on the empty stack it raises \<^verbatim>\<open>IndexError\<close>. So on a stack that holds
  the root only it returns normally and leaves the stack empty, and one more \<^verbatim>\<open>pop\<close>
  raises \<^verbatim>\<open>IndexError\<close>.
\<close>

theorem TimerStack_pop_unguarded:
  "(stack s \<noteq> [] \<longrightarrow> TimerStack_pop s = Inr (s\<lparr>stack := butlast (stack s)\<rparr>)) \<and>
   (stack s = [] \<longrightarrow> TimerStack_pop s = Inl IndexError) \<and>
   (stack s = [root_node s] \<longrightarrow>
      (\<exists>s1. TimerStack_pop s = Inr s1 \<and> s1 = s\<lparr>stack := []\<rparr> \<and> stack s1 = [] \<and>
            TimerStack_pop s1 = Inl IndexError))"
  by (simp add: TimerStack_pop_def)

theorem TimerStack_pop_unguarded_witness:
  "TimerStack_pop demo_stack = Inr (demo_stack\<lparr>stack := [0]\<rparr>) \<and>
   TimerStack_pop (demo_stack\<lparr>stack := []\<rparr>) = Inl IndexError \<and>
   (\<exists>s0 s1. TimerStack_init tick_clock [] 0 = Inr s0 \<and> stack s0 = [root_node s0] \<and>
      TimerStack_pop s0 = Inr s1 \<and> stack s1 = [] \<and> TimerStack_pop s1 = Inl IndexError)"
  using TimerStack_pop_unguarded [of demo_stack]
        TimerStack_pop_unguarded [of "demo_stack\<lparr>stack := []\<rparr>"]
        TimerStack_pop_unguarded [of fresh_stack]
  by (simp add: TimerStack_init_def TimerNode_start_def TimerNode_init_def
      TimerNode_is_running_def perf_counter_def tick_clock_def Let_def
      demo_stack_def fresh_stack_def)

section \<open>The scoped region helper when the body raises\<close>

text \<open>
  Claim C1. On a new stack, whose depth is 1, a region \<open>step\<close> whose body raises leaves
  the exception to the caller with the stack at depth 2 and the pushed node still
  running: neither \<^verbatim>\<open>_end\<close> nor \<^verbatim>\<open>pop\<close> has run.
\<close>

theorem hierarchical_timer_body_raises:
  "\<exists>s0 s'. TimerStack_init tick_clock [] 0 = Inr s0 \<and> length (stack s0) = 1 \<and>
     hierarchical_timer tick_clock ''step'' (\<lambda>node s. Inl (BodyError ''boom'', s)) s0
       = Inl (BodyError ''boom'', s') \<and>
     length (stack s') = 2 \<and> TimerNode_is_running (nodes s' ! last (stack s'))"
  by (simp add: TimerStack_init_def TimerNode_start_def TimerNode_init_def TimerNode_is_running_def
      perf_counter_def hierarchical_timer_def TimerStack_push_def Let_def tick_clock_def)

section \<open>TrainerMetrics: the path of the tree file\<close>

text \<open>
  Claim C7. For the row file \<^verbatim>\<open>csv_logs/run.csv\<close> the tree is written to
  \<^verbatim>\<open>hierarchy.json_logs/run.hierarchy.json\<close>: the directory name is rewritten too.
\<close>

theorem json_path_replaces_every_occurrence:
  "json_path (TrainerMetrics_init clk t ''csv_logs/run.csv'' b)
     = ''hierarchy.json_logs/run.hierarchy.json''"
  by (simp add: json_path_def TrainerMetrics_init_def str_replace.simps)

section \<open>TrainerMetrics: ending a policy update\<close>

text \<open>
  Claim C8. On a recorder that never got \<^verbatim>\<open>start_policy_update_timer\<close>,
  \<^verbatim>\<open>end_policy_update\<close> sets \<open>delta_policy_update\<close> to the int 0 and then raises
  \<^verbatim>\<open>TypeError\<close> while it formats the log message (\<open>last_mean_return\<close> is \<^verbatim>\<open>None\<close>);
  no row is appended. This is so on a new recorder and also after \<^verbatim>\<open>add_delta_step\<close>.
\<close>

theorem end_policy_update_without_start_raises:
  "(\<exists>m'. end_policy_update clk (TrainerMetrics_init clk t p b) = Inl (TypeError, m') \<and>
          rows m' = [] \<and> delta_policy_update m' = PInt 0) \<and>
   (\<exists>m'. end_policy_update clk (add_delta_step d (TrainerMetrics_init clk t p b))
            = Inl (TypeError, m') \<and>
          rows m' = [] \<and> delta_policy_update m' = PInt 0)"
  by (cases d)
     (simp_all add: end_policy_update_def TrainerMetrics_init_def py_time_def debug_message_def
        Let_def add_delta_step_def)

text \<open>
  The cells of a row: the name, then the five values, of which exactly the floats are
  replaced by their three-decimal strings. An int (say, a mean return passed as
  \<^verbatim>\<open>0\<close>) and \<^verbatim>\<open>None\<close> stay as they are.
\<close>

lemma add_row_cells:
  "rows (add_row delta_train_start m) =
     rows m @ [[PStr (brain_name m), row_cell (delta_policy_update m), PFmt3 delta_train_start,
                row_cell (of_num (delta_last_experience_collection m)),
                row_cell (of_num (last_buffer_length m)),
                row_cell (of_num (last_mean_return m))]]"
  by (simp add: add_row_def Let_def)

lemma row_cell_of_num:
  "row_cell (of_num None) = PNone"
  "row_cell (of_num (Some (NInt i))) = PInt i"
  "row_cell (of_num (Some (NFloat x))) = PFmt3 x"
  by simp_all

section \<open>TimerStack: push\<close>

text \<open>A new key of a dict goes to the end.\<close>

lemma update_absent: "map_of al k = None \<Longrightarrow> AList.update k v al = al @ [(k, v)]"
  by (induction al) (auto split: if_splits)

lemma push_absent:
  assumes "stack s \<noteq> []" and "map_of (children (nodes s ! last (stack s))) name = None"
    and "last (stack s) < length (nodes s)"
  shows "TimerStack_push name s =
           Inr (length (nodes s),
                s\<lparr>nodes := (nodes s @ [TimerNode_init])
                      [last (stack s) := ((nodes s @ [TimerNode_init]) ! last (stack s))
                         \<lparr>children := children ((nodes s @ [TimerNode_init]) ! last (stack s))
                                        @ [(name, length (nodes s))]\<rparr>],
                  stack := stack s @ [length (nodes s)]\<rparr>)"
  using assms by (simp add: TimerStack_push_def Let_def nth_append update_absent)

lemma push_present:
  assumes "stack s \<noteq> []" and "map_of (children (nodes s ! last (stack s))) name = Some c"
  shows "TimerStack_push name s = Inr (c, s\<lparr>stack := stack s @ [c]\<rparr>)"
  using assms by (simp add: TimerStack_push_def)

text \<open>
  Claim C3. On a stack that is not empty, \<^verbatim>\<open>push(name)\<close> returns normally, with a node
  \<open>c\<close>; \<open>c\<close> is appended to the stack and is the child registered under \<open>name\<close> at the
  node that was on top. When the name was there already, \<open>c\<close> is that child and the store
  is unchanged. When it was not, \<open>c\<close> is a new node (not running, total 0, count 0), it
  is added after the existing children of the top node, and every other node is
  unchanged. In both cases no existing node's start time, total or count changes, the
  names of the children stay distinct, and pushing the same name again under the same
  parent returns the same node and the same state: no second child is made.
\<close>

theorem TimerStack_push_spec:
  assumes "stack s \<noteq> []" and "last (stack s) < length (nodes s)"
  shows "\<exists>c s'. TimerStack_push name s = Inr (c, s') \<and>
           stack s' = stack s @ [c] \<and> root_node s' = root_node s \<and> ticks s' = ticks s \<and>
           map_of (children (nodes s' ! last (stack s))) name = Some c \<and>
           (case map_of (children (nodes s ! last (stack s))) name of
              Some c0 \<Rightarrow> c = c0 \<and> nodes s' = nodes s
            | None \<Rightarrow>
                c = length (nodes s) \<and> length (nodes s') = Suc (length (nodes s)) \<and>
                nodes s' ! c = TimerNode_init \<and>
                children (nodes s' ! last (stack s))
                  = children (nodes s ! last (stack s)) @ [(name, c)] \<and>
                (\<forall>a < length (nodes s). a \<noteq> last (stack s) \<longrightarrow> nodes s' ! a = nodes s ! a)) \<and>
           (\<forall>a < length (nodes s).
              start_time (nodes s' ! a) = start_time (nodes s ! a) \<and>
              total_time (nodes s' ! a) = total_time (nodes s ! a) \<and>
              count (nodes s' ! a) = count (nodes s ! a)) \<and>
           (distinct (map fst (children (nodes s ! last (stack s))))
              \<longrightarrow> distinct (map fst (children (nodes s' ! last (stack s))))) \<and>
           TimerStack_push name (s'\<lparr>stack := stack s\<rparr>) = Inr (c, s')"
proof (cases "map_of (children (nodes s ! last (stack s))) name")
  case None
  let ?c = "length (nodes s)"
  let ?cur = "last (stack s)"
  let ?s' = "s\<lparr>nodes := (nodes s @ [TimerNode_init])
                      [?cur := ((nodes s @ [TimerNode_init]) ! ?cur)
                         \<lparr>children := children ((nodes s @ [TimerNode_init]) ! ?cur) @ [(name, ?c)]\<rparr>],
                  stack := stack s @ [?c]\<rparr>"
  have p: "TimerStack_push name s = Inr (?c, ?s')"
    using push_absent [OF assms(1) None assms(2)] .
  have ch: "children (nodes ?s' ! ?cur) = children (nodes s ! ?cur) @ [(name, ?c)]"
    using assms(2) by (simp add: nth_append)
  have m: "map_of (children (nodes ?s' ! ?cur)) name = Some ?c"
    unfolding ch using None by (simp add: map_add_def)
  have again: "TimerStack_push name (?s'\<lparr>stack := stack s\<rparr>) = Inr (?c, ?s')"
    using push_present [of "?s'\<lparr>stack := stack s\<rparr>" name ?c] assms(1) m by simp
  have fresh: "nodes ?s' ! ?c = TimerNode_init"
    using assms(2) by (simp add: nth_list_update)
  have others: "\<forall>a < length (nodes s). a \<noteq> ?cur \<longrightarrow> nodes ?s' ! a = nodes s ! a"
    by (simp add: nth_list_update nth_append)
  have fields: "\<forall>a < length (nodes s).
              start_time (nodes ?s' ! a) = start_time (nodes s ! a) \<and>
              total_time (nodes ?s' ! a) = total_time (nodes s ! a) \<and>
              count (nodes ?s' ! a) = count (nodes s ! a)"
    by (simp add: nth_list_update nth_append)
  have dist: "distinct (map fst (children (nodes s ! ?cur)))
              \<longrightarrow> distinct (map fst (children (nodes ?s' ! ?cur)))"
    unfolding ch using None by (auto simp: map_of_eq_None_iff)
  show ?thesis
    apply (rule exI [of _ ?c])
    apply (rule exI [of _ ?s'])
    using p m again fresh others fields dist ch None
    apply simp
    done
next
  case (Some c0)
  have p: "TimerStack_push name s = Inr (c0, s\<lparr>stack := stack s @ [c0]\<rparr>)"
    using push_present [OF assms(1) Some] .
  have again: "TimerStack_push name (s\<lparr>stack := stack s @ [c0]\<rparr>\<lparr>stack := stack s\<rparr>)
                 = Inr (c0, s\<lparr>stack := stack s @ [c0]\<rparr>)"
    using push_present [of "s\<lparr>stack := stack s @ [c0]\<rparr>\<lparr>stack := stack s\<rparr>" name c0] assms(1) Some
    by simp
  show ?thesis
    apply (rule exI [of _ c0])
    apply (rule exI [of _ "s\<lparr>stack := stack s @ [c0]\<rparr>"])
    using p again Some
    apply simp
    done
qed

theorem TimerStack_push_spec_witness:
  "(\<exists>c s'. TimerStack_push ''step'' (demo_stack\<lparr>stack := [0]\<rparr>) = Inr (c, s') \<and> c = 1 \<and>
      s' = demo_stack) \<and>
   (\<exists>c s'. TimerStack_push ''update'' demo_stack = Inr (c, s') \<and> c = 2 \<and>
      stack s' = [0, 1, 2] \<and> children (nodes s' ! 1) = [(''update'', 2)] \<and>
      nodes s' ! c = TimerNode_init)"
  using TimerStack_push_spec [of "demo_stack\<lparr>stack := [0]\<rparr>" "''step''"]
        TimerStack_push_spec [of "demo_stack" "''update''"]
  by (auto simp: demo_stack_def numeral_2_eq_2)

section \<open>The timing tree\<close>

lemma store_okD:
  "store_ok ns \<Longrightarrow> a < length ns \<Longrightarrow> (n, c) \<in> set (children (ns ! a)) \<Longrightarrow> a < c \<and> c < length ns"
  by (force simp: store_ok_def list_all_iff)




lemma store_ok_same_children:
  assumes "store_ok ns" and "a < length ns" and "children n = children (ns ! a)"
  shows "store_ok (ns[a := n])"
  using assms
  by (auto simp: store_ok_def list_all_iff nth_list_update)



section \<open>TrainerMetrics: a policy update ended twice\<close>

lemma end_policy_update_keeps_start:
  "time_policy_update_start (after_end_policy_update clk m) = time_policy_update_start m"
  by (simp add: after_end_policy_update_def end_policy_update_def py_time_def Let_def add_row_def
      split: option.splits sum.splits prod.splits)

lemma after_call_keeps_start:
  "\<not> is_start_policy_update c \<Longrightarrow>
   time_policy_update_start (after_call clk c m) = time_policy_update_start m"
  by (cases c)
     (simp_all add: end_policy_update_keeps_start start_experience_collection_timer_def
        end_experience_collection_timer_def add_delta_step_def py_time_def Let_def
        split: option.splits)

lemma after_calls_keeps_start:
  "\<forall>c \<in> set cs. \<not> is_start_policy_update c \<Longrightarrow>
   time_policy_update_start (after_calls clk cs m) = time_policy_update_start m"
  by (induction cs arbitrary: m) (simp_all add: after_call_keeps_start)

lemma start_sets_start:
  "time_policy_update_start (start_policy_update_timer clk n r m) = Some (clk (time_reads m))"
  by (simp add: start_policy_update_timer_def py_time_def Let_def)

lemma after_call_start_not_None:
  "time_policy_update_start m \<noteq> None \<Longrightarrow> time_policy_update_start (after_call clk c m) \<noteq> None"
  by (cases c)
     (simp_all add: end_policy_update_keeps_start start_experience_collection_timer_def
        end_experience_collection_timer_def add_delta_step_def py_time_def Let_def
        start_policy_update_timer_def split: option.splits)

lemma after_calls_start_not_None:
  "time_policy_update_start m \<noteq> None \<Longrightarrow> time_policy_update_start (after_calls clk cs m) \<noteq> None"
proof (induction cs arbitrary: m)
  case Nil
  then show ?case by simp
next
  case (Cons c cs)
  from Cons.prems have "time_policy_update_start (after_call clk c m) \<noteq> None"
    by (rule after_call_start_not_None)
  from Cons.IH [OF this] show ?case by simp
qed

lemma after_calls_start_None:
  "time_policy_update_start m = None \<Longrightarrow>
   (time_policy_update_start (after_calls clk cs m) = None) = (\<forall>c \<in> set cs. \<not> is_start_policy_update c)"
proof (induction cs arbitrary: m)
  case Nil
  then show ?case by simp
next
  case (Cons c cs)
  show ?case
  proof (cases "is_start_policy_update c")
    case True
    have "time_policy_update_start (after_call clk c m) \<noteq> None"
      using True by (cases c) (simp_all add: start_sets_start)
    then have "time_policy_update_start (after_calls clk cs (after_call clk c m)) \<noteq> None"
      by (rule after_calls_start_not_None)
    then show ?thesis using True by simp
  next
    case False
    then have "time_policy_update_start (after_call clk c m) = None"
      using Cons.prems by (simp add: after_call_keeps_start)
    from Cons.IH [OF this] False show ?thesis by simp
  qed
qed

lemma delta_after_end:
  "delta_policy_update (after_end_policy_update clk m) =
     (if py_truthy (time_policy_update_start m)
      then PFloat (clk (time_reads m) - the (time_policy_update_start m)) else PInt 0)"
  by (simp add: after_end_policy_update_def end_policy_update_def py_time_def Let_def add_row_def
      split: option.splits sum.splits prod.splits)


lemma after_calls_append:
  "after_calls clk (xs @ ys) m = after_calls clk ys (after_calls clk xs m)"
  by (induction xs arbitrary: m) simp_all

lemma after_call_reading:
  "start_is_reading clk m \<Longrightarrow> start_is_reading clk (after_call clk c m)"
proof (cases "is_start_policy_update c")
  case True
  then show ?thesis
    by (cases c) (auto simp: start_is_reading_def start_sets_start)
next
  case False
  assume "start_is_reading clk m"
  then show ?thesis
    unfolding start_is_reading_def after_call_keeps_start [OF False] .
qed

lemma after_calls_reading:
  "start_is_reading clk m \<Longrightarrow> start_is_reading clk (after_calls clk cs m)"
  by (induction cs arbitrary: m) (simp_all add: after_call_reading)

lemma epoch_clock_nz: "\<forall>i. epoch_clock i \<noteq> 0"
  by (simp add: epoch_clock_def add_nonneg_eq_0_iff)


text \<open>
  Claim C9. Readings of \<^verbatim>\<open>time()\<close> are never 0.0 (the clock shows seconds since 1970).
  \<^verbatim>\<open>end_policy_update\<close> leaves \<open>time_policy_update_start\<close> as it is, whether it returns
  or raises. After \<^verbatim>\<open>start_policy_update_timer\<close> and any calls that are not another
  start (the first \<^verbatim>\<open>end_policy_update\<close> among them), a further \<^verbatim>\<open>end_policy_update\<close>
  sets \<open>delta_policy_update\<close> to its clock reading minus the reading of that one start,
  not to 0. On a recorder run from its construction, \<^verbatim>\<open>end_policy_update\<close> sets
  \<open>delta_policy_update\<close> to 0 exactly when no \<^verbatim>\<open>start_policy_update_timer\<close> came before.
  (Whether the call then raises while it formats the log message is not part of the
  statement: the duration is stored before.)
\<close>

theorem end_policy_update_stale_start:
  assumes nz: "\<forall>i. clk i \<noteq> 0"
  shows "time_policy_update_start (after_end_policy_update clk m') = time_policy_update_start m' \<and>
         ((\<forall>c \<in> set calls. \<not> is_start_policy_update c) \<longrightarrow>
            delta_policy_update
              (after_calls clk (StartPolicyUpdate n r # calls @ [EndPolicyUpdate]) m)
              = PFloat (clk (time_reads (after_calls clk (StartPolicyUpdate n r # calls) m))
                        - clk (time_reads m))) \<and>
         (delta_policy_update
            (after_calls clk (calls' @ [EndPolicyUpdate]) (TrainerMetrics_init clk t p b)) = PInt 0)
           = (\<forall>c \<in> set calls'. \<not> is_start_policy_update c)"
proof (intro conjI impI)
  show "time_policy_update_start (after_end_policy_update clk m') = time_policy_update_start m'"
    by (rule end_policy_update_keeps_start)
next
  assume no: "\<forall>c \<in> set calls. \<not> is_start_policy_update c"
  let ?ma = "start_policy_update_timer clk n r m"
  let ?mb = "after_calls clk calls ?ma"
  have st: "time_policy_update_start ?mb = Some (clk (time_reads m))"
    using after_calls_keeps_start [OF no, of clk ?ma] by (simp add: start_sets_start)
  have "delta_policy_update (after_end_policy_update clk ?mb)
          = PFloat (clk (time_reads ?mb) - clk (time_reads m))"
    unfolding delta_after_end st using nz by simp
  then show "delta_policy_update
              (after_calls clk (StartPolicyUpdate n r # calls @ [EndPolicyUpdate]) m)
              = PFloat (clk (time_reads (after_calls clk (StartPolicyUpdate n r # calls) m))
                        - clk (time_reads m))"
    by (simp add: after_calls_append)
next
  let ?ini = "TrainerMetrics_init clk t p b"
  let ?m = "after_calls clk calls' ?ini"
  have none0: "time_policy_update_start ?ini = None"
    by (simp add: TrainerMetrics_init_def)
  have "start_is_reading clk ?ini"
    unfolding start_is_reading_def using none0 by blast
  then have rd: "start_is_reading clk ?m"
    by (rule after_calls_reading)
  have truthy: "py_truthy (time_policy_update_start ?m) = (time_policy_update_start ?m \<noteq> None)"
    using rd nz by (auto simp: start_is_reading_def)
  have "(delta_policy_update (after_end_policy_update clk ?m) = PInt 0)
          = (time_policy_update_start ?m = None)"
    unfolding delta_after_end truthy by simp
  also have "\<dots> = (\<forall>c \<in> set calls'. \<not> is_start_policy_update c)"
    by (rule after_calls_start_None [OF none0])
  finally show "(delta_policy_update
            (after_calls clk (calls' @ [EndPolicyUpdate]) (TrainerMetrics_init clk t p b)) = PInt 0)
           = (\<forall>c \<in> set calls'. \<not> is_start_policy_update c)"
    by (simp add: after_calls_append)
qed

theorem end_policy_update_stale_start_witness:
  "(\<forall>i. epoch_clock i \<noteq> 0) \<and>
   time_policy_update_start
     (after_calls epoch_clock [StartPolicyUpdate (NInt 350) (NFloat 3)] (TrainerMetrics_init epoch_clock 0 ''m.csv'' ''brain''))
     = Some 2 \<and>
   delta_policy_update
     (after_calls epoch_clock [StartPolicyUpdate (NInt 350) (NFloat 3), EndPolicyUpdate, EndPolicyUpdate]
        (TrainerMetrics_init epoch_clock 0 ''m.csv'' ''brain''))
     = PFloat 3"
  using end_policy_update_stale_start
          [OF epoch_clock_nz, of _ "[EndPolicyUpdate]" "NInt 350" "NFloat 3" "TrainerMetrics_init epoch_clock 0 ''m.csv'' ''brain''"]
        epoch_clock_nz
  by (simp add: epoch_clock_def TrainerMetrics_init_def start_policy_update_timer_def py_time_def
      after_end_policy_update_def end_policy_update_def debug_message_def Let_def)

section \<open>Properly nested regions\<close>

lemma store_ok_iff:
  "store_ok ns = (\<forall>a < length ns. \<forall>p \<in> set (children (ns ! a)). a < snd p \<and> snd p < length ns)"
  by (auto simp: store_ok_def list_all_iff)

lemma stack_inv_iff:
  "stack_inv s =
     (stack s \<noteq> [] \<and> hd (stack s) = root_node s \<and> sorted_wrt (<) (stack s) \<and>
      (\<forall>a \<in> set (stack s). a < length (nodes s)) \<and> store_ok (nodes s) \<and>
      (\<forall>a < length (nodes s). TimerNode_is_running (nodes s ! a) = (a \<in> set (stack s))))"
  by (auto simp: stack_inv_def list_all_iff)

lemma sorted_last_max:
  "sorted_wrt (<) xs \<Longrightarrow> x \<in> set xs \<Longrightarrow> (x::nat) \<le> last xs"
  by (induction xs) (auto simp: less_imp_le)

lemma exec_ops_append:
  "exec_ops clk (xs @ ys) s =
     (case exec_ops clk xs s of Inl e \<Rightarrow> Inl e | Inr s1 \<Rightarrow> exec_ops clk ys s1)"
  by (induction xs arbitrary: s) (simp_all split: sum.splits)

text \<open>Entering a region keeps the invariant.\<close>

lemma push_start_inv:
  assumes inv: "stack_inv s" and clk: "clk (ticks s) \<noteq> -1"
  shows "\<exists>c s2. exec_ops clk [Push name, Start] s = Inr s2 \<and> stack_inv s2 \<and>
            stack s2 = stack s @ [c] \<and> root_node s2 = root_node s"
proof -
  let ?cur = "last (stack s)"
  from inv have ne: "stack s \<noteq> []" and srt: "sorted_wrt (<) (stack s)"
    and bnd: "\<forall>a \<in> set (stack s). a < length (nodes s)"
    and ok: "store_ok (nodes s)"
    and run: "\<forall>a < length (nodes s). TimerNode_is_running (nodes s ! a) = (a \<in> set (stack s))"
    and hd: "hd (stack s) = root_node s"
    by (simp_all add: stack_inv_iff)
  have cur: "?cur < length (nodes s)" using ne bnd by simp
  show ?thesis
  proof (cases "map_of (children (nodes s ! ?cur)) name")
    case (Some c)
    then have mem: "(name, c) \<in> set (children (nodes s ! ?cur))" by (rule map_of_SomeD)
    from store_okD [OF ok cur mem] have c: "?cur < c" "c < length (nodes s)" by simp_all
    have notin: "c \<notin> set (stack s)"
      using sorted_last_max [OF srt] c(1) by fastforce
    then have nrun: "\<not> TimerNode_is_running (nodes s ! c)" using run c(2) by simp
    let ?s2 = "s\<lparr>stack := stack s @ [c], ticks := Suc (ticks s),
                 nodes := (nodes s)[c := (nodes s ! c)\<lparr>start_time := clk (ticks s)\<rparr>]\<rparr>"
    have ex: "exec_ops clk [Push name, Start] s = Inr ?s2"
      using ne Some nrun by (simp add: push_present TimerNode_start_def perf_counter_def)
    have ok2: "store_ok (nodes ?s2)"
      using store_ok_same_children [OF ok c(2), of "(nodes s ! c)\<lparr>start_time := clk (ticks s)\<rparr>"]
      by simp
    have srt2: "sorted_wrt (<) (stack s @ [c])"
      using srt sorted_last_max [OF srt] c(1) by (fastforce simp: sorted_wrt_append)
    have run2: "\<forall>a < length (nodes ?s2). TimerNode_is_running (nodes ?s2 ! a) = (a \<in> set (stack ?s2))"
      using run clk c(2) by (auto simp: nth_list_update TimerNode_is_running_def)
    have "stack_inv ?s2"
      unfolding stack_inv_iff using ne hd srt2 bnd c(2) ok2 run2 by simp
    with ex show ?thesis by (intro exI [of _ c] exI [of _ ?s2]) simp
  next
    case None
    let ?c = "length (nodes s)"
    let ?ns1 = "(nodes s @ [TimerNode_init])
                  [?cur := ((nodes s @ [TimerNode_init]) ! ?cur)
                     \<lparr>children := children ((nodes s @ [TimerNode_init]) ! ?cur) @ [(name, ?c)]\<rparr>]"
    let ?s1 = "s\<lparr>nodes := ?ns1, stack := stack s @ [?c]\<rparr>"
    have p: "TimerStack_push name s = Inr (?c, ?s1)"
      by (rule push_absent [OF ne None cur])
    have nrun: "\<not> TimerNode_is_running (nodes ?s1 ! ?c)"
      using cur by (simp add: nth_list_update TimerNode_init_def TimerNode_is_running_def)
    let ?ns2 = "?ns1[?c := (?ns1 ! ?c)\<lparr>start_time := clk (ticks s)\<rparr>]"
    let ?s2 = "?s1\<lparr>ticks := Suc (ticks s), nodes := ?ns2\<rparr>"
    have ex: "exec_ops clk [Push name, Start] s = Inr ?s2"
      using p nrun by (simp add: TimerNode_start_def perf_counter_def)
    have len: "length ?ns2 = Suc (length (nodes s))" by simp
    have ch: "\<And>a. a < Suc (length (nodes s)) \<Longrightarrow>
               children (?ns2 ! a) =
                 (if a = ?cur then children (nodes s ! ?cur) @ [(name, ?c)]
                  else if a = ?c then [] else children (nodes s ! a))"
      using cur by (auto simp: nth_list_update nth_append TimerNode_init_def)
    have ok2: "store_ok ?ns2"
      unfolding store_ok_iff len
    proof (intro allI impI ballI)
      fix a p assume a: "a < Suc (length (nodes s))" and p: "p \<in> set (children (?ns2 ! a))"
      show "a < snd p \<and> snd p < Suc (length (nodes s))"
      proof (cases "a = ?c")
        case True
        with p ch [OF a] cur show ?thesis by simp
      next
        case False
        with a have a': "a < length (nodes s)" by simp
        show ?thesis
        proof (cases "p \<in> set (children (nodes s ! a))")
          case True
          with store_okD [OF ok a', of "fst p" "snd p"] show ?thesis by simp
        next
          case False
          with p ch [OF a] have "a = ?cur \<and> p = (name, ?c)"
            by (auto split: if_splits)
          with cur show ?thesis by simp
        qed
      qed
    qed
    have srt2: "sorted_wrt (<) (stack s @ [?c])"
      using srt bnd by (simp add: sorted_wrt_append)
    have st: "\<And>a. a < Suc (length (nodes s)) \<Longrightarrow>
               start_time (?ns2 ! a) = (if a = ?c then clk (ticks s) else start_time (nodes s ! a))"
      using cur by (auto simp: nth_list_update nth_append)
    have run2: "\<forall>a < length ?ns2. TimerNode_is_running (?ns2 ! a) = (a \<in> set (stack s @ [?c]))"
      unfolding len
    proof (intro allI impI)
      fix a assume a: "a < Suc (length (nodes s))"
      show "TimerNode_is_running (?ns2 ! a) = (a \<in> set (stack s @ [?c]))"
      proof (cases "a = ?c")
        case True
        then show ?thesis using st [OF a] clk by (simp add: TimerNode_is_running_def)
      next
        case False
        with a have "a < length (nodes s)" by simp
        with run have "TimerNode_is_running (nodes s ! a) = (a \<in> set (stack s))" by simp
        then show ?thesis using st [OF a] False by (simp add: TimerNode_is_running_def)
      qed
    qed
    have bnd2: "\<forall>a \<in> set (stack s @ [?c]). a < length ?ns2"
      unfolding len using bnd by auto
    have "stack_inv ?s2"
      unfolding stack_inv_iff using ne hd srt2 bnd2 ok2 run2 by simp
    with ex show ?thesis by (intro exI [of _ ?c] exI [of _ ?s2]) simp
  qed
qed

text \<open>Leaving a region keeps the invariant.\<close>

lemma end_pop_inv:
  assumes inv: "stack_inv s" and deep: "2 \<le> length (stack s)"
  shows "\<exists>s2. exec_ops clk [End, Pop] s = Inr s2 \<and> stack_inv s2 \<and>
            stack s2 = butlast (stack s) \<and> root_node s2 = root_node s"
proof -
  let ?top = "last (stack s)"
  from inv have ne: "stack s \<noteq> []" and srt: "sorted_wrt (<) (stack s)"
    and bnd: "\<forall>a \<in> set (stack s). a < length (nodes s)"
    and ok: "store_ok (nodes s)"
    and run: "\<forall>a < length (nodes s). TimerNode_is_running (nodes s ! a) = (a \<in> set (stack s))"
    and hd: "hd (stack s) = root_node s"
    by (simp_all add: stack_inv_iff)
  have top: "?top < length (nodes s)" using ne bnd by simp
  have running: "TimerNode_is_running (nodes s ! ?top)" using run top ne by simp
  let ?n = "(nodes s ! ?top)\<lparr>total_time := total_time (nodes s ! ?top)
              + (clk (ticks s) - start_time (nodes s ! ?top)),
              count := count (nodes s ! ?top) + 1, start_time := -1\<rparr>"
  let ?s2 = "s\<lparr>ticks := Suc (ticks s), nodes := (nodes s)[?top := ?n], stack := butlast (stack s)\<rparr>"
  have ex: "exec_ops clk [End, Pop] s = Inr ?s2"
    using ne running by (simp add: TimerNode_end_def perf_counter_def Let_def TimerStack_pop_def)
  have split: "stack s = butlast (stack s) @ [?top]" using ne by simp
  have ne2: "butlast (stack s) \<noteq> []"
    using deep by (cases "stack s" rule: rev_cases) auto
  have hd2: "hd (butlast (stack s)) = root_node s"
    using hd ne2 split by (metis hd_append2)
  have srt_all: "sorted_wrt (<) (butlast (stack s) @ [?top])" using srt split by simp
  then have srt2: "sorted_wrt (<) (butlast (stack s))"
    and below: "\<forall>x \<in> set (butlast (stack s)). x < ?top"
    by (simp_all add: sorted_wrt_append)
  have mem: "\<And>a. (a \<in> set (stack s)) = (a \<in> set (butlast (stack s)) \<or> a = ?top)"
    using split by (metis Un_iff insert_iff list.set(1) list.simps(15) set_append empty_iff)
  have bnd2: "\<forall>a \<in> set (butlast (stack s)). a < length (nodes s)"
    using bnd mem by simp
  have ok2: "store_ok ((nodes s)[?top := ?n])"
    using store_ok_same_children [OF ok top, of ?n] by simp
  have run2: "\<forall>a < length (nodes s).
                TimerNode_is_running ((nodes s)[?top := ?n] ! a) = (a \<in> set (butlast (stack s)))"
  proof (intro allI impI)
    fix a assume a: "a < length (nodes s)"
    show "TimerNode_is_running ((nodes s)[?top := ?n] ! a) = (a \<in> set (butlast (stack s)))"
    proof (cases "a = ?top")
      case True
      then show ?thesis using a below by (auto simp: TimerNode_is_running_def)
    next
      case False
      then show ?thesis using run a mem [of a] by simp
    qed
  qed
  have "stack_inv ?s2"
    unfolding stack_inv_iff using ne2 hd2 srt2 bnd2 ok2 run2 by simp
  with ex show ?thesis by (intro exI [of _ ?s2]) simp
qed

text \<open>A properly nested sequence runs to its end and keeps the invariant and the stack.\<close>

lemma nested_run:
  assumes clk: "\<forall>i. clk i \<noteq> -1"
  shows "stack_inv s \<Longrightarrow>
           \<exists>s'. exec_ops clk (region_ops r) s = Inr s' \<and> stack_inv s' \<and>
                stack s' = stack s \<and> root_node s' = root_node s"
    and "stack_inv s \<Longrightarrow>
           \<exists>s'. exec_ops clk (nested_ops rs) s = Inr s' \<and> stack_inv s' \<and>
                stack s' = stack s \<and> root_node s' = root_node s"
proof (induction r and rs arbitrary: s and s rule: region_ops_nested_ops.induct)
  case (1 name body)
  from push_start_inv [OF "1.prems", of clk name] clk
  obtain c s2 where s2: "exec_ops clk [Push name, Start] s = Inr s2" "stack_inv s2"
    "stack s2 = stack s @ [c]" "root_node s2 = root_node s" by auto
  from "1.IH" [OF s2(2)]
  obtain s3 where s3: "exec_ops clk (nested_ops body) s2 = Inr s3" "stack_inv s3"
    "stack s3 = stack s2" "root_node s3 = root_node s2" by auto
  from "1.prems" have "stack s \<noteq> []" by (simp add: stack_inv_iff)
  then have "2 \<le> length (stack s3)" using s3(3) s2(3) by (cases "stack s") auto
  from end_pop_inv [OF s3(2) this, of clk]
  obtain s4 where s4: "exec_ops clk [End, Pop] s3 = Inr s4" "stack_inv s4"
    "stack s4 = butlast (stack s3)" "root_node s4 = root_node s3" by auto
  have "exec_ops clk ([Push name, Start] @ nested_ops body @ [End, Pop]) s = Inr s4"
    by (simp only: exec_ops_append s2(1) s3(1) s4(1) sum.case)
  then have "exec_ops clk (region_ops (Region name body)) s = Inr s4"
    by (simp only: region_ops.simps)
  moreover have "stack s4 = stack s" using s4(3) s3(3) s2(3) by simp
  ultimately show ?case using s4(2,4) s3(4) s2(4) by simp
next
  case 2
  then show ?case by simp
next
  case (3 r rs)
  from "3.IH"(1) [OF "3.prems"]
  obtain s1 where s1: "exec_ops clk (region_ops r) s = Inr s1" "stack_inv s1"
    "stack s1 = stack s" "root_node s1 = root_node s" by auto
  from "3.IH"(2) [OF s1(2)]
  obtain s2 where s2: "exec_ops clk (nested_ops rs) s1 = Inr s2" "stack_inv s2"
    "stack s2 = stack s1" "root_node s2 = root_node s1" by auto
  have "exec_ops clk (region_ops r @ nested_ops rs) s = Inr s2"
    by (simp only: exec_ops_append s1(1) s2(1) sum.case)
  then show ?case using s1 s2 by simp
qed

text \<open>What one operation does to the stack, when it returns.\<close>

lemma exec_op_stack:
  assumes "exec_op clk x s = Inr s1"
  shows "root_node s1 = root_node s \<and>
         (case x of Push n \<Rightarrow> \<exists>c. stack s1 = stack s @ [c]
                  | Pop \<Rightarrow> stack s1 = butlast (stack s)
                  | _ \<Rightarrow> stack s1 = stack s)"
  using assms
  by (cases x)
     (auto simp: TimerStack_push_def TimerNode_start_def TimerNode_end_def TimerStack_pop_def
        perf_counter_def Let_def split: if_splits option.splits)

lemma exec_ops_append_Inr:
  "(exec_ops clk (xs @ ys) s = Inr s') =
     (\<exists>s1. exec_ops clk xs s = Inr s1 \<and> exec_ops clk ys s1 = Inr s')"
  by (simp add: exec_ops_append split: sum.splits)

lemma exec_ops_single:
  "(exec_ops clk [x] s = Inr s') = (exec_op clk x s = Inr s')"
  by (simp split: sum.splits)

lemma exec_push_start_stack:
  assumes "exec_ops clk [Push n, Start] s = Inr s2"
  shows "\<exists>c. stack s2 = stack s @ [c]"
proof -
  from assms obtain s1 where a: "exec_op clk (Push n) s = Inr s1" and b: "exec_op clk Start s1 = Inr s2"
    by (auto split: sum.splits)
  from exec_op_stack [OF a] exec_op_stack [OF b] show ?thesis by auto
qed

lemma exec_end_pop_stack:
  assumes "exec_ops clk [End, Pop] s = Inr s2"
  shows "stack s2 = butlast (stack s)"
proof -
  from assms obtain s1 where a: "exec_op clk End s = Inr s1" and b: "exec_op clk Pop s1 = Inr s2"
    by (auto split: sum.splits)
  from exec_op_stack [OF a] exec_op_stack [OF b] show ?thesis by auto
qed

text \<open>A properly nested sequence that runs to its end leaves the stack as it was.\<close>

lemma nested_balanced:
  shows "exec_ops clk (region_ops r) s = Inr s' \<Longrightarrow> stack s' = stack s"
    and "exec_ops clk (nested_ops rs) s = Inr s' \<Longrightarrow> stack s' = stack s"
proof (induction r and rs arbitrary: s s' and s s' rule: region_ops_nested_ops.induct)
  case (1 name body)
  have "exec_ops clk ([Push name, Start] @ nested_ops body @ [End, Pop]) s = Inr s'"
    using "1.prems" by (simp only: region_ops.simps)
  then obtain s2 s3 where s2: "exec_ops clk [Push name, Start] s = Inr s2"
    and s3: "exec_ops clk (nested_ops body) s2 = Inr s3"
    and s4: "exec_ops clk [End, Pop] s3 = Inr s'"
    unfolding exec_ops_append_Inr by blast
  from exec_push_start_stack [OF s2] obtain c where "stack s2 = stack s @ [c]" ..
  moreover from "1.IH" [OF s3] have "stack s3 = stack s2" .
  moreover from exec_end_pop_stack [OF s4] have "stack s' = butlast (stack s3)" .
  ultimately show ?case by simp
next
  case 2
  then show ?case by simp
next
  case (3 r rs)
  have "exec_ops clk (region_ops r @ nested_ops rs) s = Inr s'"
    using "3.prems" by (simp only: nested_ops.simps)
  then obtain s1 where s1: "exec_ops clk (region_ops r) s = Inr s1"
    and s2: "exec_ops clk (nested_ops rs) s1 = Inr s'"
    unfolding exec_ops_append_Inr by blast
  from "3.IH"(1) [OF s1] "3.IH"(2) [OF s2] show ?case by simp
qed

text \<open>Part of the way through a properly nested sequence, the stack has only grown.\<close>

lemma nested_prefix_stack:
  shows "prefix ops (region_ops r) \<Longrightarrow> exec_ops clk ops s = Inr s' \<Longrightarrow>
           \<exists>ext. stack s' = stack s @ ext"
    and "prefix ops (nested_ops rs) \<Longrightarrow> exec_ops clk ops s = Inr s' \<Longrightarrow>
           \<exists>ext. stack s' = stack s @ ext"
proof (induction r and rs arbitrary: ops s s' and ops s s' rule: region_ops_nested_ops.induct)
  case (1 name body)
  from "1.prems"(1) have "prefix ops ([Push name, Start] @ (nested_ops body @ [End, Pop]))"
    by (simp only: region_ops.simps)
  then consider (head) "prefix ops [Push name, Start]"
    | (inner) us where "ops = [Push name, Start] @ us" "prefix us (nested_ops body)"
    | (tail) vs where "ops = [Push name, Start] @ nested_ops body @ vs" "prefix vs [End, Pop]"
    unfolding prefix_append by auto
  then show ?case
  proof cases
    case head
    then consider "ops = []" | "ops = [Push name]" | "ops = [Push name, Start]"
      by (auto simp: prefix_Cons)
    then show ?thesis
    proof cases
      case 1
      then show ?thesis using "1.prems"(2) by simp
    next
      case 2
      then have "exec_op clk (Push name) s = Inr s'"
        using "1.prems"(2) by (simp only: exec_ops_single)
      from exec_op_stack [OF this] show ?thesis by auto
    next
      case 3
      then show ?thesis using exec_push_start_stack "1.prems"(2) by blast
    qed
  next
    case inner
    from "1.prems"(2) have "exec_ops clk ([Push name, Start] @ us) s = Inr s'"
      unfolding inner(1) .
    then obtain s2 where s2: "exec_ops clk [Push name, Start] s = Inr s2"
      and r: "exec_ops clk us s2 = Inr s'"
      unfolding exec_ops_append_Inr by blast
    from exec_push_start_stack [OF s2] obtain c where c: "stack s2 = stack s @ [c]" ..
    from "1.IH" [OF inner(2) r] obtain ext where "stack s' = stack s2 @ ext" ..
    with c show ?thesis by simp
  next
    case tail
    from "1.prems"(2) have "exec_ops clk ([Push name, Start] @ nested_ops body @ vs) s = Inr s'"
      unfolding tail(1) .
    then obtain s2 s3 where s2: "exec_ops clk [Push name, Start] s = Inr s2"
      and s3: "exec_ops clk (nested_ops body) s2 = Inr s3"
      and r: "exec_ops clk vs s3 = Inr s'"
      unfolding exec_ops_append_Inr by blast
    from exec_push_start_stack [OF s2] obtain c where c: "stack s2 = stack s @ [c]" ..
    from nested_balanced(2) [OF s3] have b: "stack s3 = stack s2" .
    from tail(2) consider "vs = []" | "vs = [End]" | "vs = [End, Pop]"
      by (auto simp: prefix_Cons)
    then show ?thesis
    proof cases
      case 1
      then show ?thesis using r b c by simp
    next
      case 2
      then have "exec_op clk End s3 = Inr s'" using r by (simp only: exec_ops_single)
      from exec_op_stack [OF this] b c show ?thesis by simp
    next
      case 3
      then have "stack s' = butlast (stack s3)" using r exec_end_pop_stack by blast
      then show ?thesis using b c by simp
    qed
  qed
next
  case 2
  then show ?case by simp
next
  case (3 r rs)
  from "3.prems"(1) have "prefix ops (region_ops r @ nested_ops rs)"
    by (simp only: nested_ops.simps)
  then consider (first) "prefix ops (region_ops r)"
    | (later) us where "ops = region_ops r @ us" "prefix us (nested_ops rs)"
    unfolding prefix_append by auto
  then show ?case
  proof cases
    case first
    from "3.IH"(1) [OF first "3.prems"(2)] show ?thesis .
  next
    case later
    from "3.prems"(2) have "exec_ops clk (region_ops r @ us) s = Inr s'"
      unfolding later(1) .
    then obtain s1 where s1: "exec_ops clk (region_ops r) s = Inr s1"
      and r: "exec_ops clk us s1 = Inr s'"
      unfolding exec_ops_append_Inr by blast
    from nested_balanced(1) [OF s1] have "stack s1 = stack s" .
    with "3.IH"(2) [OF later(2) r] show ?thesis by simp
  qed
qed

lemma exec_ops_root:
  "exec_ops clk ops s = Inr s' \<Longrightarrow> root_node s' = root_node s"
proof (induction ops arbitrary: s)
  case Nil
  then show ?case by simp
next
  case (Cons x ops)
  from Cons.prems obtain s1 where a: "exec_op clk x s = Inr s1" and b: "exec_ops clk ops s1 = Inr s'"
    by (auto split: sum.splits)
  from exec_op_stack [OF a] Cons.IH [OF b] show ?case by simp
qed

text \<open>The constructor gives a state with the invariant, whose stack holds the root only.\<close>

lemma TimerStack_init_inv:
  assumes "clk t \<noteq> -1"
  shows "\<exists>s. TimerStack_init clk [] t = Inr s \<and> stack_inv s \<and> stack s = [root_node s]"
  using assms
  by (simp add: TimerStack_init_def TimerNode_start_def TimerNode_init_def perf_counter_def
      TimerNode_is_running_def stack_inv_def store_ok_def Let_def)

lemma tick_clock_ok: "\<forall>i. tick_clock i \<noteq> -1"
  by (simp add: tick_clock_def)

lemma fresh_stack_inv: "stack_inv fresh_stack"
  by (simp add: fresh_stack_def stack_inv_def store_ok_def TimerNode_is_running_def)


text \<open>
  Claim C6. The clock \<^verbatim>\<open>perf_counter()\<close> never reads -1.0 (the value that stands for
  "not running"). From a state with the invariant whose stack holds the root only, as
  the constructor leaves it, every properly nested sequence of operations runs to its
  end without an exception, and then the stack has length 1 again and holds the root.
  After every initial part of the sequence the stack is not empty and its first element
  is the root.
\<close>

theorem nested_regions_restore_stack:
  assumes clk: "\<forall>i. clk i \<noteq> -1" and inv: "stack_inv s" and one: "stack s = [root_node s]"
  shows "(\<exists>s'. exec_ops clk (nested_ops rs) s = Inr s' \<and>
               length (stack s') = 1 \<and> stack s' = [root_node s'] \<and> stack_inv s') \<and>
         (\<forall>ops. prefix ops (nested_ops rs) \<longrightarrow>
            (\<exists>s'. exec_ops clk ops s = Inr s' \<and>
                  stack s' \<noteq> [] \<and> hd (stack s') = root_node s' \<and> root_node s' = root_node s))"
proof -
  from nested_run(2) [OF clk inv, of rs]
  obtain s' where s': "exec_ops clk (nested_ops rs) s = Inr s'" "stack_inv s'"
    "stack s' = stack s" "root_node s' = root_node s" by auto
  have whole: "\<exists>s'. exec_ops clk (nested_ops rs) s = Inr s' \<and>
               length (stack s') = 1 \<and> stack s' = [root_node s'] \<and> stack_inv s'"
    using s' one by simp
  have part: "\<exists>s1. exec_ops clk ops s = Inr s1 \<and>
                stack s1 \<noteq> [] \<and> hd (stack s1) = root_node s1 \<and> root_node s1 = root_node s"
    if p: "prefix ops (nested_ops rs)" for ops
  proof -
    from p obtain rest where "nested_ops rs = ops @ rest" by (auto simp: prefix_def)
    with s'(1) have "exec_ops clk (ops @ rest) s = Inr s'" by simp
    then obtain s1 where s1: "exec_ops clk ops s = Inr s1"
      unfolding exec_ops_append_Inr by blast
    from nested_prefix_stack(2) [OF p s1] obtain ext where "stack s1 = stack s @ ext" ..
    then have "stack s1 \<noteq> []" "hd (stack s1) = root_node s" using one by simp_all
    moreover from exec_ops_root [OF s1] have "root_node s1 = root_node s" .
    ultimately show ?thesis using s1 by simp
  qed
  from whole part show ?thesis by blast
qed

theorem nested_regions_restore_stack_witness:
  "TimerStack_init tick_clock [] 0 = Inr fresh_stack \<and> stack_inv fresh_stack \<and>
   (\<exists>s'. exec_ops tick_clock
           (nested_ops [Region ''update'' [Region ''loss'' []], Region ''update'' [],
                        Region ''update'' []]) fresh_stack = Inr s' \<and>
         length (stack s') = 1 \<and> stack s' = [root_node s']) \<and>
   (\<exists>s'. exec_ops tick_clock [Push ''update'', Start, Push ''loss'', Start, End] fresh_stack = Inr s' \<and>
         stack s' \<noteq> [] \<and> hd (stack s') = root_node s')"
proof -
  have i: "TimerStack_init tick_clock [] 0 = Inr fresh_stack"
    by (simp add: TimerStack_init_def TimerNode_start_def TimerNode_init_def perf_counter_def
        TimerNode_is_running_def fresh_stack_def tick_clock_def Let_def)
  have one: "stack fresh_stack = [root_node fresh_stack]"
    by (simp add: fresh_stack_def)
  have p: "prefix [Push ''update'', Start, Push ''loss'', Start, End]
            (nested_ops [Region ''update'' [Region ''loss'' []], Region ''update'' [],
                        Region ''update'' []])"
    by simp
  from nested_regions_restore_stack [OF tick_clock_ok fresh_stack_inv one,
         of "[Region ''update'' [Region ''loss'' []], Region ''update'' [], Region ''update'' []]"]
       i fresh_stack_inv p
  show ?thesis by blast
qed

end
